theory Spec2Isabelle
  imports Main "HOL-Library.Word"
begin

section \<open>go-socket-storm: the connection lifecycle engine of index.go\<close>

text \<open>
  The program is a set of goroutines that share four atomic counters, the channel
  \<open>shutdown\<close> and a wait group. Every goroutine is modelled as a labelled transition
  function: a label names the statement at which the goroutine waits, and one step takes it
  from one such statement to the next. The outcome of every blocking call (dial, read,
  write) is an input of the step, so a run of the program is the list of the steps the
  scheduler took together with the outcomes the network gave.
\<close>

subsection \<open>Integers, durations, channels\<close>

type_synonym int64 = "64 word"

text \<open>\<open>time.Duration\<close> is an \<open>int64\<close> count of nanoseconds.\<close>

type_synonym time_duration = "64 word"

definition Millisecond :: time_duration where
  "Millisecond = 1000000"

definition Second :: time_duration where
  "Second = 1000000000"

text \<open>
  Go's \<open>/\<close> on \<open>int64\<close> truncates towards zero. (A divisor of zero panics in Go; the
  only division of the program has the rate as divisor, after \<open>main\<close> has checked that
  it is positive.)
\<close>

definition go_div :: "int64 \<Rightarrow> int64 \<Rightarrow> int64" where
  "go_div a b = word_of_int (sgn (sint a) * sgn (sint b) * (\<bar>sint a\<bar> div \<bar>sint b\<bar>))"

text \<open>
  \<open>shutdown\<close> and \<open>done\<close> are of type \<open>chan struct{}\<close> and nothing is ever sent on
  them: a receive succeeds exactly when the channel is closed. Closing a closed channel
  is a run-time panic in Go, and so is \<open>time.NewTicker\<close> with an interval that is not
  positive.
\<close>

datatype chan = Open | Closed

datatype panic_value = CloseOfClosedChannel | NonPositiveInterval

definition close_chan :: "chan \<Rightarrow> panic_value + chan" where
  "close_chan c = (case c of Open \<Rightarrow> Inr Closed | Closed \<Rightarrow> Inl CloseOfClosedChannel)"

subsection \<open>The flags\<close>

text \<open>
  The five flags, as \<open>flag.Parse\<close> leaves them; the three numbers are Go \<open>int\<close>s,
  from \<open>- 2 ^ 63\<close> to \<open>2 ^ 63 - 1\<close>. \<open>main\<close> hands \<open>*wsUrl\<close> to
  \<open>url.Parse\<close>, of which only the part that finds the scheme is computed below; whether
  the rest of \<open>url.Parse\<close> (authority, path, fragment) accepts the URL is given with the
  configuration, as \<open>urlRestParses\<close>.
\<close>

record config =
  wsUrl :: string
  concurrency :: int
  rate :: int
  duration :: int
  verbose :: bool
  urlRestParses :: bool

subsection \<open>The scheme of a URL (net/url)\<close>

text \<open>
  \<open>url.Parse\<close> cuts the fragment off at the first \<open>#\<close>, refuses a URL with an ASCII
  control byte, and then splits the scheme off with \<open>getScheme\<close>: the scheme is the
  longest prefix of letters, digits, \<open>+\<close>, \<open>-\<close> and \<open>.\<close> that starts with a letter and is
  followed by a colon; a colon at the very start is an error; any other byte before a
  colon means that there is no scheme. The scheme is put into lower case.
\<close>

definition is_ctl_byte :: "char \<Rightarrow> bool" where
  "is_ctl_byte c \<longleftrightarrow> (of_char c :: nat) < 32 \<or> (of_char c :: nat) = 127"

definition is_letter :: "char \<Rightarrow> bool" where
  "is_letter c \<longleftrightarrow> (97 \<le> (of_char c :: nat) \<and> (of_char c :: nat) \<le> 122) \<or>
                  (65 \<le> (of_char c :: nat) \<and> (of_char c :: nat) \<le> 90)"

definition is_scheme_sign :: "char \<Rightarrow> bool" where
  "is_scheme_sign c \<longleftrightarrow> (48 \<le> (of_char c :: nat) \<and> (of_char c :: nat) \<le> 57) \<or>
                       c = CHR ''+'' \<or> c = CHR ''-'' \<or> c = CHR ''.''"

definition to_lower :: "char \<Rightarrow> char" where
  "to_lower c = (if 65 \<le> (of_char c :: nat) \<and> (of_char c :: nat) \<le> 90
                 then char_of ((of_char c :: nat) + 32) else c)"

text \<open>
  The loop of \<open>getScheme\<close>, with the bytes already passed as first argument: \<open>None\<close>
  is the error \<open>missing protocol scheme\<close>, \<open>Some []\<close> a URL without scheme.
\<close>

fun getScheme_from :: "string \<Rightarrow> string \<Rightarrow> string option" where
  "getScheme_from seen [] = Some []"
| "getScheme_from seen (c # cs) =
     (if is_letter c then getScheme_from (seen @ [c]) cs
      else if is_scheme_sign c
      then (if seen = [] then Some [] else getScheme_from (seen @ [c]) cs)
      else if c = CHR '':''
      then (if seen = [] then None else Some seen)
      else Some [])"

definition getScheme :: "string \<Rightarrow> string option" where
  "getScheme rawURL = getScheme_from [] rawURL"

text \<open>
  \<open>url.Parse\<close>, as far as \<open>main\<close> looks at its result: \<open>None\<close> when it returns an
  error, otherwise \<open>u.Scheme\<close>.
\<close>

definition url_Parse :: "bool \<Rightarrow> string \<Rightarrow> string option" where
  "url_Parse rest_parses rawURL =
     (if list_ex is_ctl_byte (takeWhile (\<lambda>c. c \<noteq> CHR ''#'') rawURL) then None
      else if takeWhile (\<lambda>c. c \<noteq> CHR ''#'') rawURL = ''*''
      then (if rest_parses then Some [] else None)
      else (case getScheme (takeWhile (\<lambda>c. c \<noteq> CHR ''#'') rawURL) of
              None \<Rightarrow> None
            | Some scheme \<Rightarrow> if rest_parses then Some (map to_lower scheme) else None))"

subsection \<open>The websocket collaborator (gorilla/websocket)\<close>

text \<open>
  A read fails with a \<open>*websocket.CloseError\<close> carrying the close code, with a
  \<open>net.Error\<close> (whose \<open>Timeout()\<close> is the flag), or with some other error.
\<close>

datatype ws_error = CloseError int | NetError bool | OtherError

definition CloseNormalClosure :: int where "CloseNormalClosure = 1000"
definition CloseGoingAway :: int where "CloseGoingAway = 1001"
definition CloseNoStatusReceived :: int where "CloseNoStatusReceived = 1005"

definition TextMessage :: int where "TextMessage = 1"
definition BinaryMessage :: int where "BinaryMessage = 2"
definition CloseMessage :: int where "CloseMessage = 8"
definition PingMessage :: int where "PingMessage = 9"
definition PongMessage :: int where "PongMessage = 10"

text \<open>
  \<open>websocket.IsCloseError(err, codes...)\<close>: the error is a close error with one of the
  codes. \<open>websocket.IsUnexpectedCloseError(err, expected...)\<close>: the error is a close
  error with a code that is not among the expected ones.
\<close>

definition IsCloseError :: "ws_error \<Rightarrow> int list \<Rightarrow> bool" where
  "IsCloseError err codes = (case err of CloseError c \<Rightarrow> c \<in> set codes | _ \<Rightarrow> False)"

definition IsUnexpectedCloseError :: "ws_error \<Rightarrow> int list \<Rightarrow> bool" where
  "IsUnexpectedCloseError err expected =
     (case err of CloseError c \<Rightarrow> c \<notin> set expected | _ \<Rightarrow> False)"

text \<open>\<open>netErr, ok := err.(net.Error); ok && netErr.Timeout()\<close>\<close>

definition is_timeout :: "ws_error \<Rightarrow> bool" where
  "is_timeout err = (case err of NetError t \<Rightarrow> t | _ \<Rightarrow> False)"

text \<open>
  A \<open>*websocket.Conn\<close>: \<open>None\<close> is the nil pointer, \<open>Some k\<close> the connection that the
  worker's \<open>k\<close>-th successful dial returned.
\<close>

type_synonym conn_ptr = "nat option"

text \<open>The calls a goroutine makes on its collaborators, in the order it makes them.\<close>

datatype call =
    Dial
  | SetReadDeadline conn_ptr time_duration
  | ReadMessage conn_ptr
  | WriteMessage conn_ptr int
  | ConnClose conn_ptr
  | Sleep time_duration

text \<open>The outcome of the call a worker is waiting in.\<close>

datatype io_result =
    Polled
  | DialOk
  | DialFailed
  | ReadOk int "8 word list"
  | ReadFailed ws_error
  | ReadPanics
  | WriteOk
  | WriteFailed

subsection \<open>Shared memory\<close>

datatype logline =
    LogSkipConnect
  | LogConnectionFailed
  | LogShutdownClosing conn_ptr
  | LogConnectionClosed conn_ptr ws_error
  | LogPingFailed conn_ptr
  | LogUnhandled conn_ptr ws_error
  | LogReceived conn_ptr "8 word list"
  | LogPong conn_ptr
  | LogRecovered
  | LogSignalReceived
  | LogDurationReached
  | LogRampStopped
  | LogReachedTarget int
  | LogWaitingForClose
  | LogStatus int64 int64 int64 int64
  | LogFinished int64 int64 int64

text \<open>
  The package-level variables, the wait group of \<open>main\<close> (shared with every worker
  through the pointer it is given) and the log written through package \<open>log\<close>.
\<close>

record shared =
  successfulConnections :: int64
  failedConnections :: int64
  activeConnections :: int64
  totalBytesRead :: int64
  shutdown :: chan
  wg :: int
  logged :: "logline list"

definition say :: "logline \<Rightarrow> shared \<Rightarrow> shared" where
  "say l g = g\<lparr>logged := logged g @ [l]\<rparr>"

text \<open>\<open>if *verbose { log.Printf(...) }\<close>\<close>

definition say_if :: "bool \<Rightarrow> logline \<Rightarrow> shared \<Rightarrow> shared" where
  "say_if b l g = (if b then say l g else g)"

subsection \<open>The worker\<close>

text \<open>
  The statements at which a worker waits: the \<open>select\<close> at the top of
  \<open>reconnectLoop\<close> (line 158), the dial (167), the \<open>select\<close> at the top of the read
  loop (192), the read (203), the ping write (212); \<open>Returned\<close> after the function has
  returned and its deferred calls have run.
\<close>

datatype label = AtReconnectSelect | AtDial | AtReadSelect | AtRead | AtPing | Returned

datatype phase = Connecting | Connected | Terminated

fun phase_of :: "label \<Rightarrow> phase" where
  "phase_of AtReconnectSelect = Connecting"
| "phase_of AtDial = Connecting"
| "phase_of AtReadSelect = Connected"
| "phase_of AtRead = Connected"
| "phase_of AtPing = Connected"
| "phase_of Returned = Terminated"

text \<open>
  The \<open>defer\<close> statements of \<open>worker\<close>. The receiver of \<open>defer conn.Close()\<close> is
  evaluated when the statement executes, so the deferred call keeps the connection of
  that moment.
\<close>

datatype deferred_call = DeferWgDone | DeferRecover | DeferDecActive | DeferConnClose conn_ptr

record wstate =
  pc :: label
  conn :: conn_ptr
  dialed :: nat
  reconnectAttempts :: int64
  deferred :: "deferred_call list"
  calls :: "call list"

definition maxReconnectAttempts :: int where
  "maxReconnectAttempts = 0"

definition reconnectDelay :: time_duration where
  "reconnectDelay = 2 * Second"

text \<open>
  A worker as \<open>go worker(*wsUrl, &wg)\<close> starts it, after its first two \<open>defer\<close>
  statements: the stack of deferred calls has its top at the head of the list.
\<close>

definition new_worker :: wstate where
  "new_worker = \<lparr>pc = AtReconnectSelect, conn = None, dialed = 0, reconnectAttempts = 0,
     deferred = [DeferRecover, DeferWgDone], calls = []\<rparr>"

text \<open>One deferred call; \<open>panicking\<close> says whether the function is unwinding a panic.\<close>

fun run_deferred :: "bool \<Rightarrow> deferred_call \<Rightarrow> shared \<times> wstate \<Rightarrow> shared \<times> wstate" where
  "run_deferred panicking (DeferConnClose c) (g, w) = (g, w\<lparr>calls := calls w @ [ConnClose c]\<rparr>)"
| "run_deferred panicking DeferDecActive (g, w) =
     (g\<lparr>activeConnections := activeConnections g - 1\<rparr>, w)"
| "run_deferred panicking DeferRecover (g, w) = (say_if panicking LogRecovered g, w)"
| "run_deferred panicking DeferWgDone (g, w) = (g\<lparr>wg := wg g - 1\<rparr>, w)"

fun unwind :: "bool \<Rightarrow> deferred_call list \<Rightarrow> shared \<times> wstate \<Rightarrow> shared \<times> wstate" where
  "unwind panicking [] gw = gw"
| "unwind panicking (d # ds) gw = unwind panicking ds (run_deferred panicking d gw)"

text \<open>Leaving \<open>worker\<close>, by \<open>return\<close> or by a panic: the deferred calls run, last first.\<close>

definition worker_return :: "bool \<Rightarrow> shared \<times> wstate \<Rightarrow> shared \<times> wstate" where
  "worker_return panicking gw =
     (case unwind panicking (deferred (snd gw)) gw of
        (g', w') \<Rightarrow> (g', w'\<lparr>pc := Returned, deferred := []\<rparr>))"

text \<open>
  One step of \<open>worker\<close> from the statement \<open>pc\<close>, given the outcome of the call it waits
  in. \<open>goto reconnectLoop\<close> and \<open>continue\<close> are jumps: they run no deferred call.
\<close>

fun worker_at ::
  "bool \<Rightarrow> label \<Rightarrow> io_result \<Rightarrow> shared \<times> wstate \<Rightarrow> (shared \<times> wstate) option" where
  "worker_at v AtReconnectSelect Polled (g, w) =
     (if shutdown g = Closed
      then Some (worker_return False (say_if v LogSkipConnect g, w))
      else Some (g, w\<lparr>pc := AtDial\<rparr>))"
| "worker_at v AtDial DialFailed (g, w) =
     (if 0 < maxReconnectAttempts \<and> maxReconnectAttempts \<le> sint (reconnectAttempts w)
      then Some (worker_return False
             (say_if v LogConnectionFailed
                (g\<lparr>failedConnections := failedConnections g + 1\<rparr>),
              w\<lparr>conn := None, calls := calls w @ [Dial]\<rparr>))
      else Some (say_if v LogConnectionFailed
                   (g\<lparr>failedConnections := failedConnections g + 1\<rparr>),
                 w\<lparr>pc := AtReconnectSelect, conn := None,
                   reconnectAttempts := reconnectAttempts w + 1,
                   calls := calls w @ [Dial, Sleep reconnectDelay]\<rparr>))"
| "worker_at v AtDial DialOk (g, w) =
     Some (g\<lparr>successfulConnections := successfulConnections g + 1,
             activeConnections := activeConnections g + 1\<rparr>,
           w\<lparr>pc := AtReadSelect, conn := Some (dialed w), dialed := Suc (dialed w),
             deferred := DeferConnClose (Some (dialed w)) # DeferDecActive # deferred w,
             calls := calls w @ [Dial, SetReadDeadline (Some (dialed w)) (10 * Second)]\<rparr>)"
| "worker_at v AtReadSelect Polled (g, w) =
     (if shutdown g = Closed
      then Some (worker_return False
             (say_if v (LogShutdownClosing (conn w)) g,
              w\<lparr>calls := calls w @
                   [WriteMessage (conn w) CloseMessage, Sleep (500 * Millisecond)]\<rparr>))
      else Some (g, w\<lparr>pc := AtRead\<rparr>))"
| "worker_at v AtRead (ReadOk messageType p) (g, w) =
     Some (say_if (messageType = PongMessage \<and> v) (LogPong (conn w))
             (say_if (v \<and> messageType = TextMessage) (LogReceived (conn w) p)
                (g\<lparr>totalBytesRead := totalBytesRead g + of_nat (length p)\<rparr>)),
           w\<lparr>pc := AtReadSelect,
             calls := calls w @
               [ReadMessage (conn w), SetReadDeadline (conn w) (10 * Second)]\<rparr>)"
| "worker_at v AtRead (ReadFailed err) (g, w) =
     (if IsUnexpectedCloseError err [CloseGoingAway, CloseNormalClosure, CloseNoStatusReceived]
         \<or> IsCloseError err [CloseNormalClosure, CloseGoingAway]
      then Some (say_if v (LogConnectionClosed (conn w) err) g,
                 w\<lparr>pc := AtReconnectSelect, calls := calls w @ [ReadMessage (conn w)]\<rparr>)
      else if is_timeout err
      then Some (g, w\<lparr>pc := AtPing, calls := calls w @ [ReadMessage (conn w)]\<rparr>)
      else Some (say_if v (LogUnhandled (conn w) err) g,
                 w\<lparr>pc := AtReconnectSelect, calls := calls w @ [ReadMessage (conn w)]\<rparr>))"
| "worker_at v AtRead ReadPanics (g, w) =
     Some (worker_return True (g, w\<lparr>calls := calls w @ [ReadMessage (conn w)]\<rparr>))"
| "worker_at v AtPing WriteFailed (g, w) =
     Some (say_if v (LogPingFailed (conn w)) g,
           w\<lparr>pc := AtReconnectSelect,
             calls := calls w @ [WriteMessage (conn w) PingMessage]\<rparr>)"
| "worker_at v AtPing WriteOk (g, w) =
     Some (g, w\<lparr>pc := AtReadSelect,
                calls := calls w @
                  [WriteMessage (conn w) PingMessage,
                   SetReadDeadline (conn w) (10 * Second)]\<rparr>)"
| "worker_at v _ _ gw = None"

definition worker :: "bool \<Rightarrow> io_result \<Rightarrow> shared \<times> wstate \<Rightarrow> (shared \<times> wstate) option" where
  "worker v r gw = worker_at v (pc (snd gw)) r gw"

subsection \<open>The program: main, its two goroutines, printStats and the workers\<close>

text \<open>
  Where \<open>main\<close> waits: in the \<open>select\<close> of the ramp-up loop (line 100), in
  \<open>\<open><-done\<close>\<close> (114), in \<open>\<open><-shutdown\<close>\<close> (118 to 124), in \<open>wg.Wait()\<close> (128); \<open>Exited\<close>
  after \<open>main\<close> has returned, which ends the process.
\<close>

datatype main_label = RampLoop | WaitDone | WaitShutdown | WgWait | Exited

record sys =
  mem :: shared
  workers :: "wstate list"
  establishedConnections :: int
  done_chan :: chan
  main_pc :: main_label
  signal_waiting :: bool
  timer_sleeping :: bool
  timer_calls :: "call list"
  stats_running :: bool

text \<open>
  What the scheduler and the environment can do next: the ticker delivers a tick to the
  ramp-up loop; \<open>main\<close> receives from \<open>shutdown\<close> or from \<open>done\<close>; \<open>wg.Wait()\<close>
  returns; a signal reaches the goroutine of line 74; the sleep of the goroutine of line
  86 ends; \<open>printStats\<close> gets its tick or receives from \<open>shutdown\<close>; the \<open>i\<close>-th
  worker takes a step.
\<close>

datatype event =
    Tick
  | RecvShutdown
  | RecvDone
  | WaitReturns
  | Interrupt
  | TimerWakes
  | StatsTick
  | StatsRecvShutdown
  | Work nat io_result

datatype halt = NotEnabled | Fatal | Panic panic_value

definition say_main :: "logline \<Rightarrow> sys \<Rightarrow> sys" where
  "say_main l s = s\<lparr>mem := say l (mem s)\<rparr>"

text \<open>Lines 102 to 104: \<open>wg.Add(1); go worker(*wsUrl, &wg); establishedConnections++\<close>\<close>

definition spawn :: "sys \<Rightarrow> sys" where
  "spawn s = s\<lparr>mem := (mem s)\<lparr>wg := wg (mem s) + 1\<rparr>,
              workers := workers s @ [new_worker],
              establishedConnections := establishedConnections s + 1\<rparr>"

text \<open>The label \<open>endLoop\<close> (lines 111 to 116).\<close>

definition endLoop :: "config \<Rightarrow> sys \<Rightarrow> sys" where
  "endLoop cfg s =
     (say_main (LogReachedTarget (establishedConnections s)) s)
       \<lparr>main_pc := (if 0 < duration cfg then WaitDone else WaitShutdown)\<rparr>"

text \<open>\<open>time.Sleep(time.Duration(*duration))\<close> (line 87): the argument of the sleep.\<close>

definition timer_sleep :: "config \<Rightarrow> time_duration" where
  "timer_sleep cfg = word_of_int (duration cfg)"

text \<open>Lines 76 to 81, after the signal has arrived.\<close>

definition on_signal :: "config \<Rightarrow> sys \<Rightarrow> halt + sys" where
  "on_signal cfg s =
     (case close_chan (shutdown (mem s)) of
        Inl p \<Rightarrow> Inl (Panic p)
      | Inr c \<Rightarrow>
          (if 0 < duration cfg
           then (case close_chan (done_chan s) of
                   Inl p \<Rightarrow> Inl (Panic p)
                 | Inr d \<Rightarrow>
                     Inr (s\<lparr>mem := (say LogSignalReceived (mem s))\<lparr>shutdown := c\<rparr>,
                            done_chan := d, signal_waiting := False\<rparr>))
           else Inr (s\<lparr>mem := (say LogSignalReceived (mem s))\<lparr>shutdown := c\<rparr>,
                       signal_waiting := False\<rparr>)))"

text \<open>Lines 87 to 90, when the sleep is over.\<close>

definition on_timer :: "config \<Rightarrow> sys \<Rightarrow> halt + sys" where
  "on_timer cfg s =
     (case close_chan (shutdown (mem s)) of
        Inl p \<Rightarrow> Inl (Panic p)
      | Inr c \<Rightarrow>
          (case close_chan (done_chan s) of
             Inl p \<Rightarrow> Inl (Panic p)
           | Inr d \<Rightarrow>
               Inr (s\<lparr>mem := (say LogDurationReached (mem s))\<lparr>shutdown := c\<rparr>,
                      done_chan := d, timer_sleeping := False,
                      timer_calls := timer_calls s @ [Sleep (timer_sleep cfg)]\<rparr>)))"

text \<open>\<open>printStats\<close>, on a tick of its ticker (lines 250 to 255).\<close>

definition printStats :: "sys \<Rightarrow> sys" where
  "printStats s =
     say_main (LogStatus (activeConnections (mem s)) (successfulConnections (mem s))
                 (failedConnections (mem s)) (totalBytesRead (mem s))) s"

text \<open>Lines 127 to 136, once \<open>wg.Wait()\<close> has returned.\<close>

definition summary :: "sys \<Rightarrow> sys" where
  "summary s =
     (say_main (LogFinished (successfulConnections (mem s)) (failedConnections (mem s))
                  (totalBytesRead (mem s))) s)\<lparr>main_pc := Exited\<rparr>"

fun event_step :: "config \<Rightarrow> event \<Rightarrow> sys \<Rightarrow> halt + sys" where
  "event_step cfg Tick s =
     (if main_pc s = RampLoop
      then Inr (if establishedConnections (spawn s) < concurrency cfg
                then spawn s else endLoop cfg (spawn s))
      else Inl NotEnabled)"
| "event_step cfg RecvShutdown s =
     (if shutdown (mem s) = Closed \<and> main_pc s = RampLoop
      then Inr (endLoop cfg (say_main LogRampStopped s))
      else if shutdown (mem s) = Closed \<and> main_pc s = WaitShutdown
      then Inr ((say_main LogWaitingForClose s)\<lparr>main_pc := WgWait\<rparr>)
      else Inl NotEnabled)"
| "event_step cfg RecvDone s =
     (if done_chan s = Closed \<and> main_pc s = WaitDone
      then Inr ((say_main LogWaitingForClose s)\<lparr>main_pc := WgWait\<rparr>)
      else Inl NotEnabled)"
| "event_step cfg WaitReturns s =
     (if main_pc s = WgWait \<and> wg (mem s) = 0 then Inr (summary s) else Inl NotEnabled)"
| "event_step cfg Interrupt s =
     (if signal_waiting s then on_signal cfg s else Inl NotEnabled)"
| "event_step cfg TimerWakes s =
     (if timer_sleeping s then on_timer cfg s else Inl NotEnabled)"
| "event_step cfg StatsTick s =
     (if stats_running s then Inr (printStats s) else Inl NotEnabled)"
| "event_step cfg StatsRecvShutdown s =
     (if stats_running s \<and> shutdown (mem s) = Closed
      then Inr (s\<lparr>stats_running := False\<rparr>) else Inl NotEnabled)"
| "event_step cfg (Work i r) s =
     (if i < length (workers s)
      then (case worker (verbose cfg) r (mem s, workers s ! i) of
              None \<Rightarrow> Inl NotEnabled
            | Some (g, w) \<Rightarrow> Inr (s\<lparr>mem := g, workers := (workers s)[i := w]\<rparr>))
      else Inl NotEnabled)"

text \<open>Nothing runs once \<open>main\<close> has returned.\<close>

definition step :: "config \<Rightarrow> event \<Rightarrow> sys \<Rightarrow> halt + sys" where
  "step cfg e s = (if main_pc s = Exited then Inl NotEnabled else event_step cfg e s)"

fun run :: "config \<Rightarrow> event list \<Rightarrow> sys \<Rightarrow> halt + sys" where
  "run cfg [] s = Inr s"
| "run cfg (e # es) s = (case step cfg e s of Inl h \<Rightarrow> Inl h | Inr s' \<Rightarrow> run cfg es s')"

text \<open>
  The state in which \<open>main\<close> enters the ramp-up loop (line 99): the counters are zero,
  both channels are open, the signal goroutine and \<open>printStats\<close> are started, and the
  timer goroutine is started when the duration is positive.
\<close>

definition init :: "config \<Rightarrow> sys" where
  "init cfg =
     \<lparr>mem = \<lparr>successfulConnections = 0, failedConnections = 0, activeConnections = 0,
              totalBytesRead = 0, shutdown = Open, wg = 0, logged = []\<rparr>,
      workers = [], establishedConnections = 0, done_chan = Open, main_pc = RampLoop,
      signal_waiting = True, timer_sleeping = (0 < duration cfg), timer_calls = [],
      stats_running = True\<rparr>"

text \<open>
  \<open>time.NewTicker(time.Second / time.Duration(*rate))\<close> (line 66): the interval of the
  ticker.
\<close>

definition ticker_interval :: "config \<Rightarrow> time_duration" where
  "ticker_interval cfg = go_div Second (word_of_int (rate cfg))"

text \<open>
  The start of \<open>main\<close>, up to the ramp-up loop: the checks of lines 38 to 51 end the
  process with \<open>log.Fatal\<close>, and \<open>time.NewTicker\<close> panics when the interval is not
  positive. \<open>None\<close> when \<open>main\<close> gets past all of them.
\<close>

definition startup :: "config \<Rightarrow> halt option" where
  "startup cfg =
     (if wsUrl cfg = [] then Some Fatal
      else if concurrency cfg \<le> 0 then Some Fatal
      else if rate cfg \<le> 0 then Some Fatal
      else if (case url_Parse (urlRestParses cfg) (wsUrl cfg) of
                 None \<Rightarrow> True
               | Some scheme \<Rightarrow> scheme \<noteq> ''ws'' \<and> scheme \<noteq> ''wss'')
      then Some Fatal
      else if sint (ticker_interval cfg) \<le> 0 then Some (Panic NonPositiveInterval)
      else None)"

text \<open>\<open>main\<close>: after its start the program runs from \<open>init\<close>.\<close>

definition main :: "config \<Rightarrow> event list \<Rightarrow> halt + sys" where
  "main cfg es = (case startup cfg of Some h \<Rightarrow> Inl h | None \<Rightarrow> run cfg es (init cfg))"

subsection \<open>Two configurations used below\<close>

definition one_slot :: config where
  "one_slot = \<lparr>wsUrl = ''ws://localhost:8080/ws'', concurrency = 1, rate = 1,
     duration = 0, verbose = False, urlRestParses = True\<rparr>"

definition three_seconds :: config where
  "three_seconds = \<lparr>wsUrl = ''ws://localhost:8080/ws'', concurrency = 100, rate = 1,
     duration = 3, verbose = False, urlRestParses = True\<rparr>"

subsection \<open>Bookkeeping of a worker's deferred calls\<close>

text \<open>
  The decrements of \<open>activeConnections\<close> that a worker has deferred and not yet run;
  whether a worker still counts in the wait group; and the shape of its stack of deferred
  calls: \<open>wg.Done()\<close> is on it exactly once until the worker has returned.
\<close>

definition unmatched :: "wstate \<Rightarrow> nat" where
  "unmatched w = count_list (deferred w) DeferDecActive"

definition running :: "wstate \<Rightarrow> nat" where
  "running w = (if pc w = Returned then 0 else 1)"

definition defers_ok :: "wstate \<Rightarrow> bool" where
  "defers_ok w = (if pc w = Returned then deferred w = []
                  else count_list (deferred w) DeferWgDone = 1)"

definition accounted :: "sys \<Rightarrow> bool" where
  "accounted s \<longleftrightarrow>
     activeConnections (mem s) = (\<Sum>w\<leftarrow>workers s. of_nat (unmatched w)) \<and>
     wg (mem s) = (\<Sum>w\<leftarrow>workers s. int (running w)) \<and>
     list_all defers_ok (workers s)"

text \<open>
  A run with one worker: it connects, the server closes normally, it connects again, an
  interrupt arrives, the worker and then \<open>main\<close> see it, and \<open>wg.Wait()\<close> returns.
\<close>

definition reconnect_then_interrupt :: "event list" where
  "reconnect_then_interrupt =
     [Tick, Work 0 Polled, Work 0 DialOk, Work 0 Polled,
      Work 0 (ReadFailed (CloseError CloseNormalClosure)), Work 0 Polled, Work 0 DialOk,
      Interrupt, Work 0 Polled, RecvShutdown, WaitReturns]"

text \<open>
  The worker and the shared memory after the first successful dial of the only worker,
  when the worker waits in its read.
\<close>

definition connected_worker :: wstate where
  "connected_worker = \<lparr>pc = AtRead, conn = Some 0, dialed = 1, reconnectAttempts = 0,
     deferred = [DeferConnClose (Some 0), DeferDecActive, DeferRecover, DeferWgDone],
     calls = [Dial, SetReadDeadline (Some 0) (10 * Second)]\<rparr>"

definition connected_mem :: shared where
  "connected_mem = \<lparr>successfulConnections = 1, failedConnections = 0, activeConnections = 1,
     totalBytesRead = 0, shutdown = Open, wg = 1, logged = [LogReachedTarget 1]\<rparr>"

text \<open>What one event adds to each of the three counters.\<close>

fun gained_successful :: "event \<Rightarrow> nat" where
  "gained_successful (Work i DialOk) = 1"
| "gained_successful e = 0"

fun gained_failed :: "event \<Rightarrow> nat" where
  "gained_failed (Work i DialFailed) = 1"
| "gained_failed e = 0"

fun gained_bytes :: "event \<Rightarrow> nat" where
  "gained_bytes (Work i (ReadOk messageType p)) = length p"
| "gained_bytes e = 0"

text \<open>Messages of one mebibyte, read one after the other by the first worker.\<close>

definition one_mebibyte :: "8 word list" where
  "one_mebibyte = replicate (2 ^ 20) 0"

definition read_one_mebibyte :: "event list" where
  "read_one_mebibyte = [Work 0 Polled, Work 0 (ReadOk BinaryMessage one_mebibyte)]"

definition reading :: "sys \<Rightarrow> bool" where
  "reading s \<longleftrightarrow> main_pc s \<noteq> Exited \<and> workers s \<noteq> [] \<and>
     pc (workers s ! 0) = AtReadSelect \<and> shutdown (mem s) = Open"

text \<open>A run in which the only worker connects and reads a message of two bytes.\<close>

definition read_two_bytes :: "event list" where
  "read_two_bytes = [Tick, Work 0 Polled, Work 0 DialOk, Work 0 Polled,
     Work 0 (ReadOk TextMessage [104, 105])]"


text \<open>A target of three connections, no duration.\<close>

definition three_slots :: config where
  "three_slots = \<lparr>wsUrl = ''ws://localhost:8080/ws'', concurrency = 3, rate = 1,
     duration = 0, verbose = False, urlRestParses = True\<rparr>"

text \<open>
  The lines that are logged only under \<open>if *verbose\<close>, and a state with those lines
  taken out of the log.
\<close>

fun is_verbose_line :: "logline \<Rightarrow> bool" where
  "is_verbose_line LogSkipConnect = True"
| "is_verbose_line LogConnectionFailed = True"
| "is_verbose_line (LogShutdownClosing c) = True"
| "is_verbose_line (LogConnectionClosed c err) = True"
| "is_verbose_line (LogPingFailed c) = True"
| "is_verbose_line (LogUnhandled c err) = True"
| "is_verbose_line (LogReceived c p) = True"
| "is_verbose_line (LogPong c) = True"
| "is_verbose_line l = False"

definition quiet_mem :: "shared \<Rightarrow> shared" where
  "quiet_mem g = g\<lparr>logged := filter (\<lambda>l. \<not> is_verbose_line l) (logged g)\<rparr>"

definition quiet :: "sys \<Rightarrow> sys" where
  "quiet s = s\<lparr>mem := quiet_mem (mem s)\<rparr>"

definition quiet_result :: "halt + sys \<Rightarrow> halt + sys" where
  "quiet_result r = (case r of Inl h \<Rightarrow> Inl h | Inr s \<Rightarrow> Inr (quiet s))"

text \<open>The four counters of a state, and where its goroutines are.\<close>

definition counters :: "sys \<Rightarrow> int64 \<times> int64 \<times> int64 \<times> int64" where
  "counters s = (successfulConnections (mem s), failedConnections (mem s),
                 activeConnections (mem s), totalBytesRead (mem s))"

definition positions :: "sys \<Rightarrow> main_label \<times> label list" where
  "positions s = (main_pc s, map pc (workers s))"

text \<open>What a run shows of its last state, if it has not ended in a panic.\<close>

definition observe :: "(sys \<Rightarrow> 'a) \<Rightarrow> halt + sys \<Rightarrow> halt + 'a" where
  "observe f r = (case r of Inl h \<Rightarrow> Inl h | Inr s \<Rightarrow> Inr (f s))"

text \<open>A configuration with the flag \<open>-v\<close> set, and with the flag not set.\<close>

definition verbosely :: "config \<Rightarrow> config" where
  "verbosely cfg = cfg\<lparr>verbose := True\<rparr>"

definition quietly :: "config \<Rightarrow> config" where
  "quietly cfg = cfg\<lparr>verbose := False\<rparr>"



section \<open>Properties\<close>

lemmas program_defs =
  main_def init_def step_def spawn_def endLoop_def new_worker_def say_main_def say_def
  worker_def say_if_def IsUnexpectedCloseError_def IsCloseError_def is_timeout_def
  on_signal_def on_timer_def close_chan_def printStats_def summary_def worker_return_def
  timer_sleep_def maxReconnectAttempts_def
  startup_def ticker_interval_def go_div_def Second_def url_Parse_def getScheme_def
  is_ctl_byte_def is_letter_def is_scheme_sign_def to_lower_def

lemmas code_defs =
  CloseNormalClosure_def CloseGoingAway_def CloseNoStatusReceived_def
  TextMessage_def BinaryMessage_def PongMessage_def PingMessage_def CloseMessage_def

subsection \<open>Effects of the steps\<close>

lemma unwind_effect:
  "unwind p ds (g, w) = (g', w') \<Longrightarrow>
     activeConnections g' = activeConnections g - of_nat (count_list ds DeferDecActive) \<and>
     wg g' = wg g - int (count_list ds DeferWgDone) \<and>
     successfulConnections g' = successfulConnections g \<and>
     failedConnections g' = failedConnections g \<and>
     totalBytesRead g' = totalBytesRead g \<and>
     shutdown g' = shutdown g \<and>
     pc w' = pc w \<and> deferred w' = deferred w"
proof (induction ds arbitrary: g w)
  case Nil
  then show ?case by simp
next
  case (Cons d ds)
  show ?case
  proof (cases d)
    case DeferWgDone
    with Cons.prems have "unwind p ds (g\<lparr>wg := wg g - 1\<rparr>, w) = (g', w')" by simp
    from Cons.IH [OF this] DeferWgDone show ?thesis by simp
  next
    case DeferRecover
    with Cons.prems have "unwind p ds (say_if p LogRecovered g, w) = (g', w')" by simp
    from Cons.IH [OF this] DeferRecover show ?thesis by (simp add: say_if_def say_def)
  next
    case DeferDecActive
    with Cons.prems have "unwind p ds (g\<lparr>activeConnections := activeConnections g - 1\<rparr>, w) = (g', w')" by simp
    from Cons.IH [OF this] DeferDecActive show ?thesis by simp
  next
    case (DeferConnClose c)
    with Cons.prems have "unwind p ds (g, w\<lparr>calls := calls w @ [ConnClose c]\<rparr>) = (g', w')" by simp
    from Cons.IH [OF this] DeferConnClose show ?thesis by simp
  qed
qed

lemma worker_return_effect:
  assumes "worker_return p (g, w) = (g', w')"
  shows "activeConnections g' = activeConnections g - of_nat (count_list (deferred w) DeferDecActive) \<and>
     wg g' = wg g - int (count_list (deferred w) DeferWgDone) \<and>
     successfulConnections g' = successfulConnections g \<and>
     failedConnections g' = failedConnections g \<and>
     totalBytesRead g' = totalBytesRead g \<and>
     shutdown g' = shutdown g \<and>
     pc w' = Returned \<and> deferred w' = []"
proof -
  obtain g1 w1 where u: "unwind p (deferred w) (g, w) = (g1, w1)"
    by (cases "unwind p (deferred w) (g, w)")
  with assms have eq: "g' = g1" "w' = w1\<lparr>pc := Returned, deferred := []\<rparr>"
    by (simp_all add: worker_return_def)
  from unwind_effect [OF u] eq show ?thesis by simp
qed

lemma worker_accounting:
  assumes "worker v r (g, w) = Some (g', w')"
  shows "activeConnections g' + of_nat (unmatched w) = activeConnections g + of_nat (unmatched w')"
    and "shutdown g' = shutdown g"
    and "pc w \<noteq> Returned"
    and "defers_ok w \<Longrightarrow> defers_ok w'"
    and "defers_ok w \<Longrightarrow> wg g' + int (running w) = wg g + int (running w')"
  using assms
  by (cases "pc w"; cases r;
      auto simp: worker_def unmatched_def running_def defers_ok_def say_if_def say_def
           maxReconnectAttempts_def
           split: if_splits dest!: worker_return_effect)+



lemma sum_list_map_update:
  fixes f :: "'a \<Rightarrow> 'b::comm_monoid_add"
  shows "i < length xs \<Longrightarrow>
    sum_list (map f (xs[i := x])) + f (xs ! i) = sum_list (map f xs) + f x"
proof (induction xs arbitrary: i)
  case Nil
  then show ?case by simp
next
  case (Cons a xs)
  show ?case
  proof (cases i)
    case 0
    then show ?thesis by (simp add: ac_simps)
  next
    case (Suc j)
    with Cons.prems have "j < length xs" by simp
    from Cons.IH [OF this] Suc show ?thesis
      by (simp add: add.assoc)
  qed
qed

text \<open>What a step of main, of its goroutines or of printStats leaves alone.\<close>

lemma other_step_frame:
  assumes "step cfg e s = Inr s'" and "e \<noteq> Tick" and "\<forall>i r. e \<noteq> Work i r"
  shows "workers s' = workers s \<and>
         establishedConnections s' = establishedConnections s \<and>
         successfulConnections (mem s') = successfulConnections (mem s) \<and>
         failedConnections (mem s') = failedConnections (mem s) \<and>
         activeConnections (mem s') = activeConnections (mem s) \<and>
         totalBytesRead (mem s') = totalBytesRead (mem s) \<and>
         wg (mem s') = wg (mem s)"
proof (cases e)
  case Interrupt
  with assms(1) show ?thesis
    by (auto simp: step_def on_signal_def say_def close_chan_def
        split: if_splits chan.splits)
next
  case TimerWakes
  with assms(1) show ?thesis
    by (auto simp: step_def on_timer_def say_def close_chan_def
        split: if_splits chan.splits)
next
  case RecvShutdown
  with assms(1) show ?thesis
    by (auto simp: step_def endLoop_def say_main_def say_def split: if_splits)
next
  case RecvDone
  with assms(1) show ?thesis
    by (auto simp: step_def say_main_def say_def split: if_splits)
next
  case WaitReturns
  with assms(1) show ?thesis
    by (auto simp: step_def summary_def say_main_def say_def split: if_splits)
next
  case StatsTick
  with assms(1) show ?thesis
    by (auto simp: step_def printStats_def say_main_def say_def split: if_splits)
next
  case StatsRecvShutdown
  with assms(1) show ?thesis
    by (auto simp: step_def split: if_splits)
qed (use assms in simp_all)

lemma tick_step:
  assumes "step cfg Tick s = Inr s'"
  shows "workers s' = workers s @ [new_worker] \<and>
         establishedConnections s' = establishedConnections s + 1 \<and>
         main_pc s = RampLoop \<and>
         successfulConnections (mem s') = successfulConnections (mem s) \<and>
         failedConnections (mem s') = failedConnections (mem s) \<and>
         activeConnections (mem s') = activeConnections (mem s) \<and>
         totalBytesRead (mem s') = totalBytesRead (mem s) \<and>
         shutdown (mem s') = shutdown (mem s) \<and>
         wg (mem s') = wg (mem s) + 1"
  using assms
  by (auto simp: step_def spawn_def endLoop_def say_main_def say_def split: if_splits)

lemma work_step:
  assumes "step cfg (Work i r) s = Inr s'"
  obtains g w where "i < length (workers s)"
    and "worker (verbose cfg) r (mem s, workers s ! i) = Some (g, w)"
    and "s' = s\<lparr>mem := g, workers := (workers s)[i := w]\<rparr>"
  using assms by (auto simp: step_def split: if_splits option.splits)


lemma accounted_init: "accounted (init cfg)"
  by (simp add: accounted_def init_def)

lemma accounted_work:
  assumes acc: "accounted s" and i: "i < length (workers s)"
    and w: "worker v r (mem s, workers s ! i) = Some (g, w)"
  shows "accounted (s\<lparr>mem := g, workers := (workers s)[i := w]\<rparr>)"
proof -
  let ?ws = "workers s" and ?w0 = "workers s ! i"
  from acc i have ok0: "defers_ok ?w0"
    by (simp add: accounted_def list_all_length)
  note eff = worker_accounting [OF w]
  have a: "(\<Sum>x\<leftarrow>?ws[i := w]. (of_nat (unmatched x) :: int64)) + of_nat (unmatched ?w0)
           = (\<Sum>x\<leftarrow>?ws. of_nat (unmatched x)) + of_nat (unmatched w)"
    using i by (rule sum_list_map_update)
  have b: "(\<Sum>x\<leftarrow>?ws[i := w]. int (running x)) + int (running ?w0)
           = (\<Sum>x\<leftarrow>?ws. int (running x)) + int (running w)"
    using i by (rule sum_list_map_update)
  from acc have a0: "activeConnections (mem s) = (\<Sum>x\<leftarrow>?ws. of_nat (unmatched x))"
    and b0: "wg (mem s) = (\<Sum>x\<leftarrow>?ws. int (running x))"
    by (simp_all add: accounted_def)
  have "activeConnections g + of_nat (unmatched ?w0)
        = (\<Sum>x\<leftarrow>?ws[i := w]. of_nat (unmatched x)) + of_nat (unmatched ?w0)"
    using eff(1) a a0 by simp
  then have a1: "activeConnections g = (\<Sum>x\<leftarrow>?ws[i := w]. of_nat (unmatched x))"
    by simp
  have b1: "wg g = (\<Sum>x\<leftarrow>?ws[i := w]. int (running x))"
    using eff(5) [OF ok0] b b0 by linarith
  have "defers_ok w" by (rule eff(4) [OF ok0])
  with acc have c1: "list_all defers_ok (?ws[i := w])"
    by (auto simp: accounted_def list_all_iff dest: set_update_subset_insert [THEN subsetD])
  from a1 b1 c1 show ?thesis by (simp add: accounted_def)
qed

lemma accounted_step:
  assumes acc: "accounted s" and st: "step cfg e s = Inr s'"
  shows "accounted s'"
proof (cases "e = Tick \<or> (\<exists>i r. e = Work i r)")
  case False
  then have "e \<noteq> Tick" "\<forall>i r. e \<noteq> Work i r" by auto
  from other_step_frame [OF st this] acc show ?thesis
    by (simp add: accounted_def)
next
  case True
  then show ?thesis
  proof
    assume "e = Tick"
    with st have "step cfg Tick s = Inr s'" by simp
    from tick_step [OF this] acc show ?thesis
      by (simp add: accounted_def new_worker_def unmatched_def running_def defers_ok_def)
  next
    assume "\<exists>i r. e = Work i r"
    then obtain i r where "e = Work i r" by blast
    with st have "step cfg (Work i r) s = Inr s'" by simp
    then show ?thesis
      using acc by (elim work_step) (simp add: accounted_work)
  qed
qed

lemma accounted_run:
  "accounted s \<Longrightarrow> run cfg es s = Inr s' \<Longrightarrow> accounted s'"
proof (induction es arbitrary: s)
  case Nil
  then show ?case by simp
next
  case (Cons e es)
  from Cons.prems(2) obtain s1 where s1: "step cfg e s = Inr s1" and r: "run cfg es s1 = Inr s'"
    by (auto split: sum.splits)
  from accounted_step [OF Cons.prems(1) s1] r show ?case by (rule Cons.IH)
qed

lemma startup_one_slot [simp]: "startup one_slot = None"
  by (simp add: program_defs one_slot_def)

lemma startup_three_seconds [simp]: "startup three_seconds = None"
  by (simp add: program_defs three_seconds_def)

lemma startup_three_slots [simp]: "startup three_slots = None"
  by (simp add: program_defs three_slots_def)

lemma startup_verbose [simp]: "startup (cfg\<lparr>verbose := b\<rparr>) = startup cfg"
  by (simp add: startup_def ticker_interval_def)

lemma main_run:
  assumes "main cfg es = Inr s"
  shows "run cfg es (init cfg) = Inr s" and "0 < concurrency cfg"
proof -
  from assms have st: "startup cfg = None"
    by (cases "startup cfg") (simp_all add: main_def)
  with assms show "run cfg es (init cfg) = Inr s" by (simp add: main_def)
  from st show "0 < concurrency cfg" by (simp add: startup_def split: if_splits)
qed


lemma exited_step:
  assumes "step cfg e s = Inr s'" and "main_pc s' = Exited"
  shows "wg (mem s') = 0"
proof (cases e)
  case (Work i r)
  with assms(1) have "main_pc s \<noteq> Exited" by (auto simp: step_def split: if_splits)
  moreover from assms(1) Work have "main_pc s' = main_pc s"
    by (auto elim!: work_step)
  ultimately show ?thesis using assms(2) by simp
next
  case Interrupt
  with assms show ?thesis
    by (auto simp: step_def on_signal_def split: if_splits sum.splits)
next
  case TimerWakes
  with assms show ?thesis
    by (auto simp: step_def on_timer_def split: if_splits sum.splits)
qed (use assms in \<open>auto simp: step_def spawn_def endLoop_def summary_def say_main_def say_def
       printStats_def split: if_splits\<close>)

lemma exited_run:
  "run cfg es s = Inr s' \<Longrightarrow> main_pc s' = Exited \<Longrightarrow> es \<noteq> [] \<Longrightarrow> wg (mem s') = 0"
proof (induction es arbitrary: s)
  case Nil
  then show ?case by simp
next
  case (Cons e es)
  from Cons.prems(1) obtain s1 where s1: "step cfg e s = Inr s1" and r: "run cfg es s1 = Inr s'"
    by (auto split: sum.splits)
  show ?case
  proof (cases es)
    case Nil
    with r have "s' = s1" by simp
    with s1 Cons.prems(2) show ?thesis by (simp add: exited_step)
  next
    case (Cons a list)
    then have "es \<noteq> []" by simp
    from Cons.IH [OF r Cons.prems(2) this] show ?thesis .
  qed
qed

lemma no_runner_left:
  "(\<Sum>w\<leftarrow>ws. int (running w)) = 0 \<Longrightarrow> w \<in> set ws \<Longrightarrow> pc w = Returned"
proof (induction ws)
  case Nil
  then show ?case by simp
next
  case (Cons a ws)
  have nn: "0 \<le> (\<Sum>w\<leftarrow>ws. int (running w))"
    by (rule sum_list_nonneg) auto
  from Cons.prems(1) nn have a: "running a = 0" and rest: "(\<Sum>w\<leftarrow>ws. int (running w)) = 0"
    by simp_all
  from Cons.prems(2) have "w = a \<or> w \<in> set ws" by simp
  then show ?case
  proof
    assume "w = a"
    with a show ?thesis by (simp add: running_def split: if_splits)
  next
    assume "w \<in> set ws"
    with rest show ?thesis by (rule Cons.IH)
  qed
qed

lemma all_matched:
  "\<forall>w\<in>set ws. unmatched w = 0 \<Longrightarrow> (\<Sum>w\<leftarrow>ws. (of_nat (unmatched w) :: int64)) = 0"
  by (induction ws) simp_all

subsection \<open>Heartbeat failure\<close>

text \<open>
  C1. The claim: when a read times out the worker sends a ping, and when that ping fails
  the worker adds one to \<open>failed\<close> and goes back to Connecting. On the code (lines 211 to
  218): one worker dials, its read times out, it is at the ping, and the ping fails. It
  goes back to the top of \<open>reconnectLoop\<close>, but \<open>failedConnections\<close> is still 0.
\<close>

theorem ping_failure_is_not_counted:
  "(case main one_slot [Tick, Work 0 Polled, Work 0 DialOk, Work 0 Polled,
                        Work 0 (ReadFailed (NetError True))] of
      Inr s \<Rightarrow> failedConnections (mem s) = 0 \<and> map pc (workers s) = [AtPing]
    | Inl h \<Rightarrow> False) \<and>
   (case main one_slot [Tick, Work 0 Polled, Work 0 DialOk, Work 0 Polled,
                        Work 0 (ReadFailed (NetError True)), Work 0 WriteFailed] of
      Inr s \<Rightarrow> failedConnections (mem s) = 0 \<and> map pc (workers s) = [AtReconnectSelect]
    | Inl h \<Rightarrow> False)"
  by (simp add: program_defs one_slot_def)

subsection \<open>The duration timer\<close>

text \<open>
  C2. The claim: with a duration of \<open>d\<close> the timer fires the shutdown signal after \<open>d\<close>
  seconds. On the code (line 87) the flag's number is converted to a \<open>time.Duration\<close>
  as it is, so with \<open>-d 3\<close> the goroutine sleeps 3 nanoseconds, where 3 seconds are
  \<open>3 * Second\<close>, and then closes \<open>shutdown\<close>. The ramp-up loop, the receive from
  \<open>done\<close> and \<open>wg.Wait()\<close> can then go through before a single worker is started.
\<close>

theorem duration_timer_sleeps_nanoseconds:
  "timer_sleep three_seconds = 3 \<and> 3 * Second = (3000000000 :: time_duration) \<and>
   (case main three_seconds [TimerWakes] of
      Inr s \<Rightarrow> timer_calls s = [Sleep 3] \<and> shutdown (mem s) = Closed
    | Inl h \<Rightarrow> False) \<and>
   (case main three_seconds [TimerWakes, RecvShutdown, RecvDone, WaitReturns] of
      Inr s \<Rightarrow> main_pc s = Exited \<and> workers s = [] \<and> timer_calls s = [Sleep 3]
    | Inl h \<Rightarrow> False)"
  by (simp add: program_defs three_seconds_def Second_def)

subsection \<open>Firing the shutdown signal twice\<close>

text \<open>
  C3. The claim: firing the shutdown signal a second time has the effect of firing it
  once. On the code, firing is \<open>close(shutdown)\<close> (lines 77 and 89): with a positive
  duration, the timer and an interrupt both close the channel, in either order, and the
  second close panics, which ends the process. One interrupt alone closes the channel.
\<close>

theorem second_close_of_shutdown_panics:
  "main three_seconds [TimerWakes, Interrupt] = Inl (Panic CloseOfClosedChannel) \<and>
   main three_seconds [Interrupt, TimerWakes] = Inl (Panic CloseOfClosedChannel) \<and>
   (case main three_seconds [Interrupt] of
      Inr s \<Rightarrow> shutdown (mem s) = Closed
    | Inl h \<Rightarrow> False)"
  by (simp add: program_defs three_seconds_def)

subsection \<open>Leaving the read loop by \<open>goto reconnectLoop\<close>\<close>

text \<open>
  C4. The claim: on every exit from Connected other than shutdown, \<open>active\<close> is
  decremented and the connection is released before the worker is in Connecting again.
  On the code the decrement and \<open>conn.Close()\<close> are deferred calls (lines 186 and
  187), and \<open>goto reconnectLoop\<close> runs none: after a normal closure, after a failed
  ping and after any other read error the worker is in Connecting, \<open>activeConnections\<close>
  is still 1 and the connection has not been closed.
\<close>

theorem reconnect_keeps_active_and_connection:
  "(case main one_slot [Tick, Work 0 Polled, Work 0 DialOk, Work 0 Polled,
                        Work 0 (ReadFailed (CloseError CloseNormalClosure))] of
      Inr s \<Rightarrow> map (phase_of \<circ> pc) (workers s) = [Connecting] \<and>
               activeConnections (mem s) = 1 \<and>
               ConnClose (Some 0) \<notin> set (calls (workers s ! 0)) \<and>
               deferred (workers s ! 0) =
                 [DeferConnClose (Some 0), DeferDecActive, DeferRecover, DeferWgDone]
    | Inl h \<Rightarrow> False) \<and>
   (case main one_slot [Tick, Work 0 Polled, Work 0 DialOk, Work 0 Polled,
                        Work 0 (ReadFailed (NetError True)), Work 0 WriteFailed] of
      Inr s \<Rightarrow> map (phase_of \<circ> pc) (workers s) = [Connecting] \<and>
               activeConnections (mem s) = 1 \<and>
               ConnClose (Some 0) \<notin> set (calls (workers s ! 0))
    | Inl h \<Rightarrow> False) \<and>
   (case main one_slot [Tick, Work 0 Polled, Work 0 DialOk, Work 0 Polled,
                        Work 0 (ReadFailed OtherError)] of
      Inr s \<Rightarrow> map (phase_of \<circ> pc) (workers s) = [Connecting] \<and>
               activeConnections (mem s) = 1 \<and>
               ConnClose (Some 0) \<notin> set (calls (workers s ! 0))
    | Inl h \<Rightarrow> False)"
  by (simp add: program_defs one_slot_def code_defs)

text \<open>
  C5. The claim: \<open>active\<close> is always between 0 and the concurrency target. On the code,
  with a target of 1: the only worker connects, the server closes normally, the worker
  connects again, and \<open>printStats\<close> reports \<open>Active: 2\<close>.
\<close>

theorem active_exceeds_concurrency:
  "(case main one_slot [Tick, Work 0 Polled, Work 0 DialOk, Work 0 Polled,
                        Work 0 (ReadFailed (CloseError CloseNormalClosure)),
                        Work 0 Polled, Work 0 DialOk, StatsTick] of
      Inr s \<Rightarrow> sint (activeConnections (mem s)) = 2 \<and> concurrency one_slot = 1 \<and>
               length (workers s) = 1 \<and>
               last (logged (mem s)) = LogStatus 2 2 0 0
    | Inl h \<Rightarrow> False)"
  by (simp add: program_defs one_slot_def code_defs)

subsection \<open>The active counter at the end of the run\<close>

text \<open>
  C10. Every increment of \<open>active\<close> is matched by exactly one decrement by the time the
  worker has terminated, so \<open>active\<close> is 0 once the wait for the workers is over. In
  every state that \<open>main\<close> reaches, \<open>activeConnections\<close> is the number of decrements
  that the workers have deferred and not yet run (each successful dial adds one to the
  counter and defers one decrement); a worker that has returned has none left; and once
  \<open>wg.Wait()\<close> has returned and the summary is printed, every worker has returned and
  \<open>activeConnections\<close> is 0.
\<close>

theorem active_is_zero_after_wait:
  assumes "main cfg es = Inr s"
  shows "activeConnections (mem s) = (\<Sum>w\<leftarrow>workers s. of_nat (unmatched w)) \<and>
         (\<forall>w\<in>set (workers s). pc w = Returned \<longrightarrow> unmatched w = 0) \<and>
         (main_pc s = Exited \<longrightarrow>
            (\<forall>w\<in>set (workers s). pc w = Returned) \<and> activeConnections (mem s) = 0)"
proof -
  from assms have r: "run cfg es (init cfg) = Inr s" by (rule main_run)
  from accounted_run [OF accounted_init r] have acc: "accounted s" .
  then have sum: "activeConnections (mem s) = (\<Sum>w\<leftarrow>workers s. of_nat (unmatched w))"
    by (simp add: accounted_def)
  from acc have ret: "\<forall>w\<in>set (workers s). pc w = Returned \<longrightarrow> unmatched w = 0"
    by (auto simp: accounted_def list_all_iff defers_ok_def unmatched_def split: if_splits)
  have fin: "(\<forall>w\<in>set (workers s). pc w = Returned) \<and> activeConnections (mem s) = 0"
    if ex: "main_pc s = Exited"
  proof -
    have "es \<noteq> []"
    proof
      assume "es = []"
      with r have "s = init cfg" by simp
      with ex show False by (simp add: init_def)
    qed
    from exited_run [OF r ex this] have "wg (mem s) = 0" .
    with acc have "(\<Sum>w\<leftarrow>workers s. int (running w)) = 0" by (simp add: accounted_def)
    then have all: "\<forall>w\<in>set (workers s). pc w = Returned"
      by (blast intro: no_runner_left)
    with ret have "\<forall>w\<in>set (workers s). unmatched w = 0" by blast
    then have "(\<Sum>w\<leftarrow>workers s. (of_nat (unmatched w) :: int64)) = 0" by (rule all_matched)
    with sum all show ?thesis by simp
  qed
  from sum ret fin show ?thesis by blast
qed

theorem active_is_zero_after_wait_witness:
  "\<exists>s. main one_slot reconnect_then_interrupt = Inr s \<and> main_pc s = Exited \<and>
       successfulConnections (mem s) = 2 \<and> map pc (workers s) = [Returned] \<and>
       activeConnections (mem s) = 0"
proof -
  have ev: "case main one_slot reconnect_then_interrupt of
          Inr s \<Rightarrow> main_pc s = Exited \<and> successfulConnections (mem s) = 2 \<and>
                   map pc (workers s) = [Returned]
        | Inl h \<Rightarrow> False"
    by code_simp
  show ?thesis
  proof (cases "main one_slot reconnect_then_interrupt")
    case (Inl h)
    with ev show ?thesis by simp
  next
    case (Inr s)
    with ev have e: "main_pc s = Exited" "successfulConnections (mem s) = 2"
      "map pc (workers s) = [Returned]"
      by simp_all
    have "main_pc s = Exited \<longrightarrow>
            (\<forall>w\<in>set (workers s). pc w = Returned) \<and> activeConnections (mem s) = 0"
      using active_is_zero_after_wait [OF Inr] by (elim conjE)
    with e(1) have "activeConnections (mem s) = 0" by simp
    with Inr e show ?thesis by simp
  qed
qed

lemma connected_reached:
  "case main one_slot [Tick, Work 0 Polled, Work 0 DialOk, Work 0 Polled] of
     Inr s \<Rightarrow> mem s = connected_mem \<and> workers s = [connected_worker]
   | Inl h \<Rightarrow> False"
  by (simp add: program_defs one_slot_def connected_mem_def connected_worker_def)

subsection \<open>Expected close\<close>

text \<open>
  C7. When a read fails with a close error whose code is normal closure, going away or no
  status received, the worker does not change \<open>failedConnections\<close> and is in the
  Connecting phase again, at the top of \<open>reconnectLoop\<close>, from where it dials anew
  unless \<open>shutdown\<close> is closed.
\<close>

theorem expected_close_reconnects_uncounted:
  assumes "pc w = AtRead"
    and "c = CloseNormalClosure \<or> c = CloseGoingAway \<or> c = CloseNoStatusReceived"
  shows "\<exists>g' w'. worker v (ReadFailed (CloseError c)) (g, w) = Some (g', w') \<and>
           failedConnections g' = failedConnections g \<and>
           pc w' = AtReconnectSelect \<and> phase_of (pc w') = Connecting \<and>
           (shutdown g' = Open \<longrightarrow> worker v Polled (g', w') = Some (g', w'\<lparr>pc := AtDial\<rparr>))"
  using assms
  by (auto simp: worker_def IsUnexpectedCloseError_def IsCloseError_def is_timeout_def
      say_if_def say_def code_defs)

theorem expected_close_reconnects_uncounted_witness:
  "\<exists>g' w'. worker False (ReadFailed (CloseError CloseNoStatusReceived))
              (connected_mem, connected_worker) = Some (g', w') \<and>
           failedConnections g' = 0 \<and> pc w' = AtReconnectSelect \<and>
           worker False Polled (g', w') = Some (g', w'\<lparr>pc := AtDial\<rparr>)"
proof -
  have p: "pc connected_worker = AtRead" by (simp add: connected_worker_def)
  have c: "CloseNoStatusReceived = CloseNormalClosure \<or> CloseNoStatusReceived = CloseGoingAway
      \<or> CloseNoStatusReceived = CloseNoStatusReceived" by simp
  from expected_close_reconnects_uncounted [OF p c, of False connected_mem]
  obtain g' w' where w: "worker False (ReadFailed (CloseError CloseNoStatusReceived))
              (connected_mem, connected_worker) = Some (g', w')"
    and f: "failedConnections g' = failedConnections connected_mem" "pc w' = AtReconnectSelect"
    and n: "shutdown g' = Open \<longrightarrow> worker False Polled (g', w') = Some (g', w'\<lparr>pc := AtDial\<rparr>)"
    by (elim exE conjE)
  from worker_accounting(2) [OF w] have "shutdown g' = Open"
    by (simp add: connected_mem_def)
  with n have "worker False Polled (g', w') = Some (g', w'\<lparr>pc := AtDial\<rparr>)" by simp
  with w f show ?thesis by (simp add: connected_mem_def)
qed

lemma worker_counters:
  assumes "worker v r (g, w) = Some (g', w')"
  shows "successfulConnections g' = successfulConnections g + of_nat (gained_successful (Work i r)) \<and>
         failedConnections g' = failedConnections g + of_nat (gained_failed (Work i r)) \<and>
         totalBytesRead g' = totalBytesRead g + of_nat (gained_bytes (Work i r))"
  using assms
  by (cases "pc w"; cases r;
      auto simp: worker_def say_if_def say_def maxReconnectAttempts_def
           split: if_splits dest!: worker_return_effect)

lemma step_counters:
  assumes "step cfg e s = Inr s'"
  shows "successfulConnections (mem s') = successfulConnections (mem s) + of_nat (gained_successful e) \<and>
         failedConnections (mem s') = failedConnections (mem s) + of_nat (gained_failed e) \<and>
         totalBytesRead (mem s') = totalBytesRead (mem s) + of_nat (gained_bytes e)"
proof (cases e)
  case (Work i r)
  with assms have "step cfg (Work i r) s = Inr s'" by simp
  then show ?thesis
  proof (rule work_step)
    fix g w
    assume "worker (verbose cfg) r (mem s, workers s ! i) = Some (g, w)"
      and "s' = s\<lparr>mem := g, workers := (workers s)[i := w]\<rparr>"
    with worker_counters [of "verbose cfg" r "mem s" "workers s ! i" g w i] Work
    show ?thesis by simp
  qed
next
  case Tick
  with assms tick_step [of cfg s s'] show ?thesis by simp
qed (use assms other_step_frame [of cfg e s s'] in simp_all)

lemma run_counters:
  "run cfg es s = Inr s' \<Longrightarrow>
     successfulConnections (mem s') =
       successfulConnections (mem s) + of_nat (sum_list (map gained_successful es)) \<and>
     failedConnections (mem s') =
       failedConnections (mem s) + of_nat (sum_list (map gained_failed es)) \<and>
     totalBytesRead (mem s') =
       totalBytesRead (mem s) + of_nat (sum_list (map gained_bytes es))"
proof (induction es arbitrary: s)
  case Nil
  then show ?case by simp
next
  case (Cons e es)
  from Cons.prems obtain s1 where s1: "step cfg e s = Inr s1" and r: "run cfg es s1 = Inr s'"
    by (auto split: sum.splits)
  from step_counters [OF s1] Cons.IH [OF r] show ?case
    by (simp add: add.assoc)
qed

lemma sint_add_of_nat:
  fixes x :: int64
  assumes "sint x + int n < 2 ^ 63"
  shows "sint (x + of_nat n) = sint x + int n"
proof -
  have lo: "- (2 ^ 63) \<le> sint x" using sint_ge [of x] by simp
  have hi: "sint x < 2 ^ 63" using sint_lt [of x] by simp
  have self: "signed_take_bit 63 (sint x) = sint x"
    using lo hi by (rule signed_take_bit_int_eq_self)
  have "sint (x + of_nat n) = signed_take_bit 63 (sint x + signed_take_bit 63 (int n))"
    by (simp add: sint_word_ariths signed_of_nat)
  also have "\<dots> = signed_take_bit 63 (signed_take_bit 63 (sint x) + signed_take_bit 63 (int n))"
    by (simp only: self)
  also have "\<dots> = signed_take_bit 63 (sint x + int n)"
    by (rule signed_take_bit_add)
  also have "\<dots> = sint x + int n"
    using lo assms by (simp add: signed_take_bit_int_eq_self)
  finally show ?thesis .
qed

lemma sint_le_add_of_nat:
  fixes x :: int64
  assumes "sint x + int n < 2 ^ 63"
  shows "sint x \<le> sint (x + of_nat n)"
  using sint_add_of_nat [OF assms] by simp

lemma reading_block:
  assumes "reading s"
  shows "\<exists>s'. run cfg [Work 0 Polled, Work 0 (ReadOk messageType p)] s = Inr s' \<and> reading s'"
  using assms
  by (cases "workers s")
     (auto simp: reading_def step_def worker_def say_if_def say_def)

lemma run_append:
  "run cfg (xs @ ys) s = (case run cfg xs s of Inl h \<Rightarrow> Inl h | Inr s' \<Rightarrow> run cfg ys s')"
  by (induction xs arbitrary: s) (auto split: sum.splits)

lemma reading_blocks:
  "reading s \<Longrightarrow>
     \<exists>s'. run cfg (concat (replicate n [Work 0 Polled, Work 0 (ReadOk messageType p)])) s = Inr s'
          \<and> reading s'"
proof (induction n arbitrary: s)
  case 0
  then show ?case by simp
next
  case (Suc n)
  from reading_block [OF Suc.prems, of cfg messageType p]
  obtain s1 where s1: "run cfg [Work 0 Polled, Work 0 (ReadOk messageType p)] s = Inr s1"
    and r1: "reading s1" by blast
  from Suc.IH [OF r1] obtain s' where
    "run cfg (concat (replicate n [Work 0 Polled, Work 0 (ReadOk messageType p)])) s1 = Inr s'"
    and "reading s'" by blast
  with s1 show ?case
    by (simp only: replicate_Suc concat.simps run_append) simp
qed

lemma gained_bytes_blocks:
  "sum_list (map gained_bytes (concat (replicate n [Work 0 Polled, Work 0 (ReadOk messageType p)])))
     = n * length p"
  by (induction n) simp_all

subsection \<open>Successful reads and the growth of the counters\<close>

text \<open>
  C8, as stated, fails on the code: the counters are \<open>int64\<close> and
  \<open>atomic.AddInt64\<close> wraps around. A worker that has read \<open>2 ^ 43\<close> messages of one
  mebibyte has added \<open>2 ^ 63\<close> to \<open>totalBytesRead\<close>, which started at 0 and now is
  the least \<open>int64\<close>: the counter has decreased.
\<close>

theorem bytesRead_wraps_around:
  "case main one_slot ([Tick, Work 0 Polled, Work 0 DialOk] @
                       concat (replicate (2 ^ 43) read_one_mebibyte)) of
     Inr s \<Rightarrow> totalBytesRead (mem (init one_slot)) = 0 \<and>
              sint (totalBytesRead (mem s)) = - (2 ^ 63)
   | Inl h \<Rightarrow> False"
proof -
  let ?blocks = "concat (replicate (2 ^ 43) read_one_mebibyte)"
  have "case run one_slot [Tick, Work 0 Polled, Work 0 DialOk] (init one_slot) of
          Inr s \<Rightarrow> reading s \<and> totalBytesRead (mem s) = 0 | Inl h \<Rightarrow> False"
    by (simp add: program_defs one_slot_def reading_def)
  then obtain s1 where s1: "run one_slot [Tick, Work 0 Polled, Work 0 DialOk] (init one_slot) = Inr s1"
    and r1: "reading s1" and b1: "totalBytesRead (mem s1) = 0"
    by (cases "run one_slot [Tick, Work 0 Polled, Work 0 DialOk] (init one_slot)") simp_all
  from reading_blocks [OF r1, of one_slot "2 ^ 43" BinaryMessage one_mebibyte]
  obtain s where s: "run one_slot ?blocks s1 = Inr s"
    by (auto simp: read_one_mebibyte_def)
  from run_counters [OF s] b1
  have "totalBytesRead (mem s) = of_nat (sum_list (map gained_bytes ?blocks))" by simp
  also have "sum_list (map gained_bytes ?blocks) = 2 ^ 43 * length one_mebibyte"
    unfolding read_one_mebibyte_def by (rule gained_bytes_blocks)
  also have "\<dots> = 2 ^ 63" by (simp add: one_mebibyte_def)
  finally have "totalBytesRead (mem s) = 2 ^ 63" by simp
  then have neg: "sint (totalBytesRead (mem s)) = - (2 ^ 63)" by simp
  have "run one_slot ([Tick, Work 0 Polled, Work 0 DialOk] @ ?blocks) (init one_slot)
        = (case run one_slot [Tick, Work 0 Polled, Work 0 DialOk] (init one_slot) of
             Inl h \<Rightarrow> Inl h | Inr s' \<Rightarrow> run one_slot ?blocks s')"
    by (rule run_append)
  also have "\<dots> = Inr s" by (simp only: s1 s sum.case)
  finally have r: "run one_slot ([Tick, Work 0 Polled, Work 0 DialOk] @ ?blocks) (init one_slot)
        = Inr s" .
  have "main one_slot ([Tick, Work 0 Polled, Work 0 DialOk] @ ?blocks)
        = run one_slot ([Tick, Work 0 Polled, Work 0 DialOk] @ ?blocks) (init one_slot)"
    by (simp add: main_def)
  with r have m: "main one_slot ([Tick, Work 0 Polled, Work 0 DialOk] @ ?blocks) = Inr s"
    by (simp only:)
  have z: "totalBytesRead (mem (init one_slot)) = 0" by (simp add: init_def)
  from neg z show ?thesis by (simp only: m sum.case)
qed

text \<open>
  C8, amended. A successful read adds the length of the payload to \<open>totalBytesRead\<close>
  (in \<open>int64\<close> arithmetic), leaves the other counters alone, resets the read
  deadline to 10 seconds and leaves the worker in the Connected phase, at the top of the
  read loop. Between any two states of a run, \<open>successfulConnections\<close>,
  \<open>failedConnections\<close> and \<open>totalBytesRead\<close> do not decrease as long as what the
  steps in between add to each keeps it below \<open>2 ^ 63\<close>.
\<close>

theorem read_adds_payload_length:
  "(pc w = AtRead \<longrightarrow>
      (\<exists>g' w'. worker v (ReadOk messageType p) (g, w) = Some (g', w') \<and>
         totalBytesRead g' = totalBytesRead g + of_nat (length p) \<and>
         successfulConnections g' = successfulConnections g \<and>
         failedConnections g' = failedConnections g \<and>
         calls w' = calls w @ [ReadMessage (conn w), SetReadDeadline (conn w) (10 * Second)] \<and>
         pc w' = AtReadSelect \<and> phase_of (pc w') = Connected)) \<and>
   (run cfg es s = Inr s' \<and>
    sint (successfulConnections (mem s)) + int (sum_list (map gained_successful es)) < 2 ^ 63 \<and>
    sint (failedConnections (mem s)) + int (sum_list (map gained_failed es)) < 2 ^ 63 \<and>
    sint (totalBytesRead (mem s)) + int (sum_list (map gained_bytes es)) < 2 ^ 63 \<longrightarrow>
      sint (successfulConnections (mem s)) \<le> sint (successfulConnections (mem s')) \<and>
      sint (failedConnections (mem s)) \<le> sint (failedConnections (mem s')) \<and>
      sint (totalBytesRead (mem s)) \<le> sint (totalBytesRead (mem s')))"
proof (intro conjI impI)
  assume "pc w = AtRead"
  then show "\<exists>g' w'. worker v (ReadOk messageType p) (g, w) = Some (g', w') \<and>
         totalBytesRead g' = totalBytesRead g + of_nat (length p) \<and>
         successfulConnections g' = successfulConnections g \<and>
         failedConnections g' = failedConnections g \<and>
         calls w' = calls w @ [ReadMessage (conn w), SetReadDeadline (conn w) (10 * Second)] \<and>
         pc w' = AtReadSelect \<and> phase_of (pc w') = Connected"
    by (simp add: worker_def say_if_def say_def)
next
  assume a: "run cfg es s = Inr s' \<and>
    sint (successfulConnections (mem s)) + int (sum_list (map gained_successful es)) < 2 ^ 63 \<and>
    sint (failedConnections (mem s)) + int (sum_list (map gained_failed es)) < 2 ^ 63 \<and>
    sint (totalBytesRead (mem s)) + int (sum_list (map gained_bytes es)) < 2 ^ 63"
  then have r: "run cfg es s = Inr s'" by simp
  note c = run_counters [OF r]
  from a c show "sint (successfulConnections (mem s)) \<le> sint (successfulConnections (mem s'))"
    by (simp add: sint_le_add_of_nat)
  from a c show "sint (failedConnections (mem s)) \<le> sint (failedConnections (mem s'))"
    by (simp add: sint_le_add_of_nat)
  from a c show "sint (totalBytesRead (mem s)) \<le> sint (totalBytesRead (mem s'))"
    by (simp add: sint_le_add_of_nat)
qed

theorem read_adds_payload_length_witness:
  "(\<exists>g' w'. worker False (ReadOk TextMessage [104, 105]) (connected_mem, connected_worker)
              = Some (g', w') \<and>
            totalBytesRead g' = 2 \<and> pc w' = AtReadSelect) \<and>
   (\<exists>s'. run one_slot read_two_bytes (init one_slot) = Inr s' \<and>
          sint (successfulConnections (mem (init one_slot)))
            \<le> sint (successfulConnections (mem s')) \<and>
          sint (failedConnections (mem (init one_slot))) \<le> sint (failedConnections (mem s')) \<and>
          sint (totalBytesRead (mem (init one_slot))) \<le> sint (totalBytesRead (mem s')))"
proof -
  have ev: "case run one_slot read_two_bytes (init one_slot) of
              Inr s' \<Rightarrow> totalBytesRead (mem s') = 2 | Inl h \<Rightarrow> False"
    by code_simp
  then obtain s' where r: "run one_slot read_two_bytes (init one_slot) = Inr s'"
    by (cases "run one_slot read_two_bytes (init one_slot)") simp_all
  have h: "run one_slot read_two_bytes (init one_slot) = Inr s' \<and>
    sint (successfulConnections (mem (init one_slot)))
      + int (sum_list (map gained_successful read_two_bytes)) < 2 ^ 63 \<and>
    sint (failedConnections (mem (init one_slot)))
      + int (sum_list (map gained_failed read_two_bytes)) < 2 ^ 63 \<and>
    sint (totalBytesRead (mem (init one_slot)))
      + int (sum_list (map gained_bytes read_two_bytes)) < 2 ^ 63"
    using r by (simp add: init_def read_two_bytes_def)
  have p: "pc connected_worker = AtRead" by (simp add: connected_worker_def)
  note t = read_adds_payload_length [of connected_worker False TextMessage "[104, 105]"
      connected_mem one_slot read_two_bytes "init one_slot" s']
  from t p have "\<exists>g' w'. worker False (ReadOk TextMessage [104, 105])
        (connected_mem, connected_worker) = Some (g', w') \<and>
      totalBytesRead g' = totalBytesRead connected_mem + of_nat (length [104, 105 :: 8 word]) \<and>
      pc w' = AtReadSelect"
    by blast
  then have a: "\<exists>g' w'. worker False (ReadOk TextMessage [104, 105])
        (connected_mem, connected_worker) = Some (g', w') \<and>
      totalBytesRead g' = 2 \<and> pc w' = AtReadSelect"
    by (simp add: connected_mem_def)
  from t h have
    "sint (successfulConnections (mem (init one_slot))) \<le> sint (successfulConnections (mem s')) \<and>
     sint (failedConnections (mem (init one_slot))) \<le> sint (failedConnections (mem s')) \<and>
     sint (totalBytesRead (mem (init one_slot))) \<le> sint (totalBytesRead (mem s'))"
    by blast
  with r a show ?thesis by blast
qed

subsection \<open>The ramp-up loop\<close>













text \<open>When \<open>main\<close> gets to the ramp-up loop: the rates for which the ticker can be made.\<close>

lemma sint_rate:
  assumes "0 < r" and "r < 2 ^ 63"
  shows "sint (word_of_int r :: int64) = r"
proof -
  have "sint (word_of_int r :: int64) = signed_take_bit 63 r"
    by (simp add: sint_word_ariths signed_of_int)
  also have "\<dots> = r" using assms by (simp add: signed_take_bit_int_eq_self)
  finally show ?thesis .
qed

lemma ticker_interval_value:
  assumes "0 < rate cfg" and "rate cfg < 2 ^ 63"
  shows "sint (ticker_interval cfg) = 1000000000 div rate cfg"
proof -
  let ?q = "1000000000 div rate cfg"
  have r: "sint (word_of_int (rate cfg) :: int64) = rate cfg"
    using assms by (rule sint_rate)
  have q0: "0 \<le> ?q" using assms(1) by (simp add: pos_imp_zdiv_nonneg_iff)
  have "?q \<le> 1000000000" by (rule int_div_le_self) simp
  then have q1: "?q < 2 ^ 63" by simp
  have "ticker_interval cfg = word_of_int ?q"
    using assms(1) by (simp add: ticker_interval_def go_div_def Second_def r)
  moreover have "sint (word_of_int ?q :: int64) = signed_take_bit 63 ?q"
    by (simp add: signed_of_int)
  moreover have "signed_take_bit 63 ?q = ?q"
    using q0 q1 by (simp add: signed_take_bit_int_eq_self)
  ultimately show ?thesis by simp
qed

lemma ticker_needs_rate:
  assumes "0 < rate cfg" and "rate cfg < 2 ^ 63"
  shows "0 < sint (ticker_interval cfg) \<longleftrightarrow> rate cfg \<le> 1000000000"
  using assms by (simp add: ticker_interval_value pos_imp_zdiv_pos_iff)




subsection \<open>The verbose flag\<close>

lemma quiet_mem_fields [simp]:
  "successfulConnections (quiet_mem g) = successfulConnections g"
  "failedConnections (quiet_mem g) = failedConnections g"
  "activeConnections (quiet_mem g) = activeConnections g"
  "totalBytesRead (quiet_mem g) = totalBytesRead g"
  "shutdown (quiet_mem g) = shutdown g"
  "wg (quiet_mem g) = wg g"
  by (simp_all add: quiet_mem_def)

lemma quiet_mem_updates:
  "quiet_mem (g\<lparr>successfulConnections := a\<rparr>) = (quiet_mem g)\<lparr>successfulConnections := a\<rparr>"
  "quiet_mem (g\<lparr>failedConnections := a\<rparr>) = (quiet_mem g)\<lparr>failedConnections := a\<rparr>"
  "quiet_mem (g\<lparr>activeConnections := a\<rparr>) = (quiet_mem g)\<lparr>activeConnections := a\<rparr>"
  "quiet_mem (g\<lparr>totalBytesRead := a\<rparr>) = (quiet_mem g)\<lparr>totalBytesRead := a\<rparr>"
  "quiet_mem (g\<lparr>shutdown := c\<rparr>) = (quiet_mem g)\<lparr>shutdown := c\<rparr>"
  "quiet_mem (g\<lparr>wg := n\<rparr>) = (quiet_mem g)\<lparr>wg := n\<rparr>"
  by (simp_all add: quiet_mem_def)

lemma quiet_mem_say:
  "quiet_mem (say l g) = (if is_verbose_line l then quiet_mem g else say l (quiet_mem g))"
  by (simp add: quiet_mem_def say_def)

lemma quiet_mem_say_if:
  "quiet_mem (say_if b l g) =
     (if is_verbose_line l then quiet_mem g else say_if b l (quiet_mem g))"
  by (simp add: say_if_def quiet_mem_say)

lemma quiet_run_deferred:
  "run_deferred p d (quiet_mem g, w) = apfst quiet_mem (run_deferred p d (g, w))"
  by (cases d) (simp_all add: quiet_mem_updates quiet_mem_say_if)

lemma quiet_unwind:
  "unwind p ds (quiet_mem g, w) = apfst quiet_mem (unwind p ds (g, w))"
proof (induction ds arbitrary: g w)
  case Nil
  then show ?case by simp
next
  case (Cons d ds)
  obtain g1 w1 where d: "run_deferred p d (g, w) = (g1, w1)"
    by (cases "run_deferred p d (g, w)")
  then have "run_deferred p d (quiet_mem g, w) = (quiet_mem g1, w1)"
    by (simp add: quiet_run_deferred)
  with d Cons.IH [of g1 w1] show ?case by simp
qed

lemma quiet_worker_return:
  "apfst quiet_mem (worker_return p (g, w)) = worker_return p (quiet_mem g, w)"
proof -
  obtain g1 w1 where u: "unwind p (deferred w) (g, w) = (g1, w1)"
    by (cases "unwind p (deferred w) (g, w)")
  then have "unwind p (deferred w) (quiet_mem g, w) = (quiet_mem g1, w1)"
    by (simp add: quiet_unwind)
  with u show ?thesis by (simp add: worker_return_def)
qed

lemma quiet_worker:
  "worker False r (quiet_mem g, w) = map_option (apfst quiet_mem) (worker v r (g, w))"
  by (cases "pc w"; cases r;
      simp add: worker_def quiet_worker_return quiet_mem_say_if quiet_mem_updates
        say_if_def [of False])

lemma quiet_fields [simp]:
  "mem (quiet s) = quiet_mem (mem s)"
  "workers (quiet s) = workers s"
  "establishedConnections (quiet s) = establishedConnections s"
  "done_chan (quiet s) = done_chan s"
  "main_pc (quiet s) = main_pc s"
  "signal_waiting (quiet s) = signal_waiting s"
  "timer_sleeping (quiet s) = timer_sleeping s"
  "timer_calls (quiet s) = timer_calls s"
  "stats_running (quiet s) = stats_running s"
  by (simp_all add: quiet_def)

lemma quiet_step:
  "step (quietly cfg) e (quiet s) = quiet_result (step cfg e s)"
proof (cases e)
  case (Work i r)
  show ?thesis
  proof (cases "worker (verbose cfg) r (mem s, workers s ! i)")
    case None
    with quiet_worker [of r "mem s" "workers s ! i" "verbose cfg"] Work show ?thesis
      by (simp add: step_def quietly_def quiet_result_def)
  next
    case (Some gw)
    obtain g w where gw: "gw = (g, w)" by (cases gw)
    with Some quiet_worker [of r "mem s" "workers s ! i" "verbose cfg"] Work show ?thesis
      by (simp add: step_def quietly_def quiet_result_def; simp add: quiet_def)
  qed
next
  case Tick
  then show ?thesis
    by (simp add: step_def quietly_def quiet_result_def spawn_def endLoop_def say_main_def;
        simp add: quiet_def quiet_mem_def say_def)
next
  case RecvShutdown
  then show ?thesis
    by (simp add: step_def quietly_def quiet_result_def endLoop_def say_main_def;
        simp add: quiet_def quiet_mem_def say_def)
next
  case RecvDone
  then show ?thesis
    by (simp add: step_def quietly_def quiet_result_def say_main_def;
        simp add: quiet_def quiet_mem_def say_def)
next
  case WaitReturns
  then show ?thesis
    by (simp add: step_def quietly_def quiet_result_def summary_def say_main_def;
        simp add: quiet_def quiet_mem_def say_def)
next
  case Interrupt
  then show ?thesis
    by (cases "shutdown (mem s)"; cases "done_chan s";
        simp add: step_def quietly_def quiet_result_def on_signal_def close_chan_def;
        simp add: quiet_def quiet_mem_def say_def)
next
  case TimerWakes
  then show ?thesis
    by (cases "shutdown (mem s)"; cases "done_chan s";
        simp add: step_def quietly_def quiet_result_def on_timer_def close_chan_def
          timer_sleep_def;
        simp add: quiet_def quiet_mem_def say_def)
next
  case StatsTick
  then show ?thesis
    by (simp add: step_def quietly_def quiet_result_def printStats_def say_main_def;
        simp add: quiet_def quiet_mem_def say_def)
next
  case StatsRecvShutdown
  then show ?thesis
    by (simp add: step_def quietly_def quiet_result_def; simp add: quiet_def)
qed

lemma quiet_run:
  "run (quietly cfg) es (quiet s) = quiet_result (run cfg es s)"
proof (induction es arbitrary: s)
  case Nil
  then show ?case by (simp add: quiet_result_def)
next
  case (Cons e es)
  show ?case
  proof (cases "step cfg e s")
    case (Inl h)
    with quiet_step [of cfg e s] show ?thesis by (simp add: quiet_result_def)
  next
    case (Inr s1)
    with quiet_step [of cfg e s] Cons.IH [of s1] show ?thesis by (simp add: quiet_result_def)
  qed
qed

lemma quiet_main:
  "main (quietly cfg) es = quiet_result (main cfg es)"
proof -
  have i: "quiet (init cfg) = init (quietly cfg)"
    by (simp add: quiet_def quiet_mem_def init_def quietly_def)
  have s: "startup (quietly cfg) = startup cfg"
    by (simp add: quietly_def)
  show ?thesis
  proof (cases "startup cfg")
    case None
    with s i quiet_run [of cfg es "init cfg"] show ?thesis by (simp add: main_def)
  next
    case (Some h)
    with s show ?thesis by (simp add: main_def quiet_result_def)
  qed
qed

lemma observe_quiet:
  "observe counters (quiet_result r) = observe counters r"
  "observe positions (quiet_result r) = observe positions r"
  by (cases r; simp add: observe_def quiet_result_def counters_def positions_def)+

text \<open>
  C9. Two runs that differ only in the verbose flag and take the same steps with the same
  outcomes, for any list of steps and so after each of its prefixes: either both end in
  the same panic or refusal, or they reach states that are equal once the lines logged
  under \<open>if *verbose\<close> are taken out of the log. In particular the four counters are
  the same, and \<open>main\<close> and every worker are at the same statement.
\<close>

theorem verbose_changes_diagnostics_only:
  "quiet_result (main (verbosely cfg) es) = quiet_result (main (quietly cfg) es) \<and>
   observe counters (main (verbosely cfg) es) = observe counters (main (quietly cfg) es) \<and>
   observe positions (main (verbosely cfg) es) = observe positions (main (quietly cfg) es)"
proof -
  have q: "quietly (verbosely cfg) = quietly cfg" "quietly (quietly cfg) = quietly cfg"
    by (simp_all add: quietly_def verbosely_def)
  have a: "quiet_result (main (verbosely cfg) es) = main (quietly cfg) es"
    using quiet_main [of "verbosely cfg" es] by (simp add: q)
  have b: "quiet_result (main (quietly cfg) es) = main (quietly cfg) es"
    using quiet_main [of "quietly cfg" es] by (simp add: q)
  from a b have 1: "quiet_result (main (verbosely cfg) es) = quiet_result (main (quietly cfg) es)"
    by simp
  from arg_cong [OF 1, of "observe counters"]
  have 2: "observe counters (main (verbosely cfg) es) = observe counters (main (quietly cfg) es)"
    by (simp add: observe_quiet)
  from arg_cong [OF 1, of "observe positions"]
  have 3: "observe positions (main (verbosely cfg) es) = observe positions (main (quietly cfg) es)"
    by (simp add: observe_quiet)
  from 1 2 3 show ?thesis by simp
qed

text \<open>The flag does change the log: a failed dial is reported only when it is set.\<close>

lemma verbose_run_differs_in_the_log:
  "main (verbosely one_slot) [Tick, Work 0 Polled, Work 0 DialFailed]
     \<noteq> main (quietly one_slot) [Tick, Work 0 Polled, Work 0 DialFailed]"
  by (simp add: program_defs one_slot_def verbosely_def quietly_def)

end
